theory Spec2Isabelle
  imports Main "HOL-Library.Word"
begin

section \<open>The script authorizer of policy-admission (pkg/authorize/scripts/authorizer.go)\<close>

subsection \<open>Errors, panics and field errors\<close>

text \<open>
  A Go \<open>error\<close> value. \<open>errTimeout\<close> is the package-level sentinel
  \<^verbatim>\<open>var errTimeout = errors.New("operation timed out")\<close>; the source compares against it by
  identity, so any other error, whatever its message, is a different value (\<open>Error msg\<close>).
\<close>

datatype goerror = errTimeout | Error string

fun Error_string :: "goerror \<Rightarrow> string" where
  "Error_string errTimeout = ''operation timed out''"
| "Error_string (Error msg) = msg"

text \<open>The value carried by a Go panic (an \<open>interface{}\<close>): an error value or anything else.\<close>

datatype panic_value = PanicError goerror | PanicValue string

text \<open>A call either returns or unwinds with a panic.\<close>

datatype 'a result = Return 'a | Panic panic_value

text \<open>\<open>field.Error\<close> of k8s.io/apimachinery, with the constructors the source calls.\<close>

datatype ErrorType = ErrorTypeInvalid | ErrorTypeRequired | ErrorTypeInternal

record field_Error =
  Type :: ErrorType
  FieldPath :: string
  BadValue :: "string option"
  Detail :: string

definition field_Invalid :: "string \<Rightarrow> string \<Rightarrow> string \<Rightarrow> field_Error" where
  "field_Invalid path v detail =
     \<lparr>Type = ErrorTypeInvalid, FieldPath = path, BadValue = Some v, Detail = detail\<rparr>"

definition field_InternalError :: "string \<Rightarrow> goerror \<Rightarrow> field_Error" where
  "field_InternalError path err =
     \<lparr>Type = ErrorTypeInternal, FieldPath = path, BadValue = None, Detail = Error_string err\<rparr>"

subsection \<open>Request context and configuration\<close>

type_synonym bytes = string

text \<open>A decoded JSON value (what \<open>encoding/json\<close> stores in an \<open>interface{}\<close>).\<close>

datatype json =
    JNull
  | JBool bool
  | JNumber string
  | JString string
  | JArray "json list"
  | JObject "(string \<times> json) list"

type_synonym jsonmap = "string \<rightharpoonup> json"

text \<open>
  A Kubernetes API object as this plugin sees it: its namespace (\<open>GetNamespace()\<close>) and the
  rest of it, which only \<open>json.Marshal\<close> reads.
\<close>

record Object =
  GetNamespace :: string
  Body :: string

record GroupVersionKind =
  Group :: string
  Version :: string
  Kind :: string

type_synonym Client = "string \<Rightarrow> goerror + Object"
type_synonym Cache = "string \<rightharpoonup> Object"

record Context =
  cx_Object :: Object
  cx_Group :: GroupVersionKind
  cx_Client :: Client
  cx_Cache :: Cache

type_synonym duration = "64 word"

record Config =
  Name :: string
  Script :: string
  Timeout :: duration
  Options :: "string \<rightharpoonup> json"

record authorizer =
  config :: Config

subsection \<open>The interpreter\<close>

text \<open>
  What \<open>vm.Set\<close> binds: a static option, the cache handle, a decoded object, or one of the
  host functions.
\<close>

datatype hostfn = fn_log | fn_hasPrefix | fn_hasSuffix | fn_inDomain | fn_deny

datatype binding = Opt json | CacheHandle | Data jsonmap | HostFunction hostfn

type_synonym vm = "string \<rightharpoonup> binding"

text \<open>
  The behaviour of a running script as the host observes it. Between two statement boundaries
  the script computes (\<open>Tick\<close>) or calls a host function with an effect on the host: \<open>deny\<close>
  or \<open>log\<close>, with the arguments already converted by \<open>Value.String()\<close>. It may finish
  (\<open>Done\<close>), fail with a script error that \<open>Run\<close> returns (\<open>Throw\<close>), or unwind with a Go
  panic that the interpreter does not catch (\<open>Crash\<close>). The type is coinductive: a script may
  run forever.
\<close>

codatatype prog =
    Done
  | Throw string
  | Crash panic_value
  | Tick prog
  | CallDeny "string list" prog
  | CallLog "string list" prog

text \<open>
  The calls the plugin makes outwards: \<open>otto.New()\<close>, \<open>utils.GetCachedNamespace\<close>, the
  fetch behind it, \<open>context.WithTimeout\<close>, \<open>e.Run\<close>, and a line written to the logger.
\<close>

datatype event =
    NewVM
  | Lookup string
  | Fetch string
  | Arm duration
  | Run string vm
  | Logged string string

text \<open>
  The parts of the program's world that are not in this file of the repository, taken as
  parameters: \<open>encoding/json\<close>, the JavaScript semantics of otto (program text and bindings to
  behaviour), the number of statement boundaries the interpreter passes before a timer of a
  given duration fires, and the package's \<open>NewDefaultConfig()\<close>.
\<close>

record world =
  json_Marshal :: "Object \<Rightarrow> goerror + bytes"
  json_Unmarshal :: "bytes \<Rightarrow> goerror + jsonmap"
  otto_eval :: "string \<Rightarrow> vm \<Rightarrow> prog"
  clock :: "duration \<Rightarrow> nat"
  NewDefaultConfig :: Config

text \<open>The locals of \<open>Admit\<close> that the host functions write: \<open>errs\<close>, and the log.\<close>

record state =
  errs :: "field_Error list"
  trace :: "event list"

definition emit :: "event list \<Rightarrow> state \<Rightarrow> state" where
  "emit evs s = s\<lparr>trace := trace s @ evs\<rparr>"

text \<open>\<open>call.Argument(i).String()\<close>: a missing argument is \<open>undefined\<close>.\<close>

definition Argument :: "string list \<Rightarrow> nat \<Rightarrow> string" where
  "Argument args i = (if i < length args then args ! i else ''undefined'')"

text \<open>The closure bound to \<open>deny\<close> (lines 96-103).\<close>

definition deny :: "string list \<Rightarrow> state \<Rightarrow> state" where
  "deny call s =
     (let path = Argument call 0;
          message = Argument call 1;
          v = Argument call 2
      in s\<lparr>errs := errs s @ [field_Invalid path v message]\<rparr>)"

text \<open>The closure bound to \<open>log\<close> (lines 84-90).\<close>

definition log_info :: "authorizer \<Rightarrow> string list \<Rightarrow> state \<Rightarrow> state" where
  "log_info c call s = emit [Logged (Name (config c)) (Argument call 0)] s"

text \<open>
  \<open>e.Run(script)\<close> with \<open>e.Interrupt\<close> set. The interpreter polls the interrupt channel at
  every statement boundary; \<open>n\<close> is the number of boundaries it passes before the function
  sent on the channel arrives, and calling that function panics with \<open>intr\<close>.
\<close>

fun otto_Run :: "authorizer \<Rightarrow> panic_value \<Rightarrow> nat \<Rightarrow> prog \<Rightarrow> state \<Rightarrow> goerror option result \<times> state" where
  "otto_Run c intr 0 p s = (Panic intr, s)"
| "otto_Run c intr (Suc n) p s =
     (case p of
        Done \<Rightarrow> (Return None, s)
      | Throw msg \<Rightarrow> (Return (Some (Error msg)), s)
      | Crash v \<Rightarrow> (Panic v, s)
      | Tick p' \<Rightarrow> otto_Run c intr n p' s
      | CallDeny call p' \<Rightarrow> otto_Run c intr n p' (deny call s)
      | CallLog call p' \<Rightarrow> otto_Run c intr n p' (log_info c call s))"

subsection \<open>runSafely (lines 115-150)\<close>

text \<open>
  The parent context is the number of boundaries after which it is done, if ever
  (\<open>context.TODO()\<close> is \<open>None\<close>); \<open>context.WithTimeout\<close> is done at the earlier of the two.
\<close>

definition WithTimeout :: "world \<Rightarrow> nat option \<Rightarrow> duration \<Rightarrow> nat" where
  "WithTimeout w ctx timeout =
     (case ctx of None \<Rightarrow> clock w timeout | Some k \<Rightarrow> min k (clock w timeout))"

definition runSafely ::
  "world \<Rightarrow> authorizer \<Rightarrow> nat option \<Rightarrow> vm \<Rightarrow> string \<Rightarrow> duration \<Rightarrow> state \<Rightarrow> goerror option result \<times> state" where
  "runSafely w c ctx e script timeout s =
     (let timeout = (if sint timeout \<le> 0 then Timeout (NewDefaultConfig w) else timeout);
          done = WithTimeout w ctx timeout;
          s = emit [Arm timeout] s;
          (r, s) = otto_Run c (PanicError errTimeout) done (otto_eval w script e) (emit [Run script e] s)
      in case r of
           Panic v \<Rightarrow> if v = PanicError errTimeout then (Return (Some errTimeout), s) else (Panic v, s)
         | Return err \<Rightarrow> (Return err, s))"

subsection \<open>marshal (lines 193-206)\<close>

definition marshal :: "world \<Rightarrow> Object \<Rightarrow> jsonmap \<times> goerror option" where
  "marshal w o' =
     (let data = Map.empty
      in case json_Marshal w o' of
           Inl err \<Rightarrow> (data, Some err)
         | Inr encoded \<Rightarrow>
             (case json_Unmarshal w encoded of
                Inl err \<Rightarrow> (data, Some err)
              | Inr data \<Rightarrow> (data, None)))"

subsection \<open>Admit (lines 44-112)\<close>

text \<open>
  Modelled from the spec: \<open>utils.GetCachedNamespace\<close> is not among the sources. Section 4.2:
  a live entry is returned without a fetch; otherwise the fetch capability is invoked, a
  success is stored and returned, a failure is returned and nothing is cached.
\<close>

definition GetCachedNamespace :: "Client \<Rightarrow> Cache \<Rightarrow> string \<Rightarrow> (goerror + Object) \<times> Cache \<times> event list" where
  "GetCachedNamespace client cache name =
     (case cache name of
        Some ns \<Rightarrow> (Inr ns, cache, [])
      | None \<Rightarrow>
          (case client name of
             Inl err \<Rightarrow> (Inl err, cache, [Fetch name])
           | Inr ns \<Rightarrow> (Inr ns, cache(name \<mapsto> ns), [Fetch name])))"

text \<open>Lines 55-60: the group and kind are filled in where the encoding omits them.\<close>

definition backfill :: "GroupVersionKind \<Rightarrow> jsonmap \<Rightarrow> jsonmap" where
  "backfill g obj =
     (let obj = (if ''apiVersion'' \<in> dom obj then obj
                 else obj(''apiVersion'' \<mapsto> JString (Group g @ ''/'' @ Version g)));
          obj = (if ''kind'' \<in> dom obj then obj else obj(''kind'' \<mapsto> JString (Kind g)))
      in obj)"

text \<open>Lines 63-68: a new interpreter with the options, the cache and the object.\<close>

definition new_vm :: "authorizer \<Rightarrow> jsonmap \<Rightarrow> vm" where
  "new_vm c obj =
     (let vm = (\<lambda>k. map_option Opt (Options (config c) k));
          vm = vm(''cache'' \<mapsto> CacheHandle);
          vm = vm(''object'' \<mapsto> Data obj)
      in vm)"

text \<open>Lines 84-103: the host functions.\<close>

definition set_functions :: "vm \<Rightarrow> vm" where
  "set_functions vm =
     vm(''log'' \<mapsto> HostFunction fn_log,
        ''hasPrefix'' \<mapsto> HostFunction fn_hasPrefix,
        ''hasSuffix'' \<mapsto> HostFunction fn_hasSuffix,
        ''inDomain'' \<mapsto> HostFunction fn_inDomain,
        ''deny'' \<mapsto> HostFunction fn_deny)"

text \<open>
  Lines 50-103 of the inner function: everything before \<open>runSafely\<close>. It returns the early
  error or the interpreter, with the context (whose cache the lookup may have filled) and the
  calls made.
\<close>

definition Admit_setup :: "world \<Rightarrow> authorizer \<Rightarrow> Context \<Rightarrow> (goerror + vm) \<times> Context \<times> event list" where
  "Admit_setup w c cx =
     (case marshal w (cx_Object cx) of
        (obj, Some err) \<Rightarrow> (Inl err, cx, [])
      | (obj, None) \<Rightarrow>
          (let obj = backfill (cx_Group cx) obj;
               vm = new_vm c obj
           in if GetNamespace (cx_Object cx) \<noteq> '''' then
                (case GetCachedNamespace (cx_Client cx) (cx_Cache cx) (GetNamespace (cx_Object cx)) of
                   (Inl err, cache, evs) \<Rightarrow>
                     (Inl err, cx\<lparr>cx_Cache := cache\<rparr>,
                      NewVM # Lookup (GetNamespace (cx_Object cx)) # evs)
                 | (Inr namespace, cache, evs) \<Rightarrow>
                     (case marshal w namespace of
                        (ns, Some err) \<Rightarrow>
                          (Inl err, cx\<lparr>cx_Cache := cache\<rparr>,
                           NewVM # Lookup (GetNamespace (cx_Object cx)) # evs)
                      | (ns, None) \<Rightarrow>
                          (Inr (set_functions (vm(''namespace'' \<mapsto> Data ns))),
                           cx\<lparr>cx_Cache := cache\<rparr>,
                           NewVM # Lookup (GetNamespace (cx_Object cx)) # evs)))
              else (Inr (set_functions vm), cx, [NewVM])))"

record admitted =
  outcome :: "field_Error list result"
  after :: Context
  calls :: "event list"

definition Admit :: "world \<Rightarrow> authorizer \<Rightarrow> nat option \<Rightarrow> Context \<Rightarrow> admitted" where
  "Admit w c ctx cx =
     (let errs0 = [] in
      case Admit_setup w c cx of
        (Inl err, cx, evs) \<Rightarrow>
          \<lparr>outcome = Return (errs0 @ [field_InternalError '''' err]), after = cx, calls = evs\<rparr>
      | (Inr vm, cx, evs) \<Rightarrow>
          (case runSafely w c ctx vm (Script (config c)) (Timeout (config c))
                  \<lparr>errs = errs0, trace = evs\<rparr> of
             (Panic v, s) \<Rightarrow> \<lparr>outcome = Panic v, after = cx, calls = trace s\<rparr>
           | (Return (Some err), s) \<Rightarrow>
               \<lparr>outcome = Return (errs s @ [field_InternalError '''' err]), after = cx,
                calls = trace s\<rparr>
           | (Return None, s) \<Rightarrow> \<lparr>outcome = Return (errs s), after = cx, calls = trace s\<rparr>))"

subsection \<open>New and Stop (lines 163-169, 227-229)\<close>

text \<open>
  The configuration pointer is \<open>None\<close> for nil. The result is the pair Go returns: the
  authorizer pointer and the error.
\<close>

definition New :: "world \<Rightarrow> Config option \<Rightarrow> authorizer option \<times> goerror option" where
  "New w cfg =
     (let cfg = (case cfg of None \<Rightarrow> NewDefaultConfig w | Some c \<Rightarrow> c)
      in (Some \<lparr>config = cfg\<rparr>, None))"

definition Stop :: "authorizer \<Rightarrow> goerror option" where
  "Stop c = None"

subsection \<open>Vocabulary of the properties\<close>

text \<open>
  \<open>steps p n cs q\<close>: the script \<open>p\<close> passes \<open>n\<close> statement boundaries without finishing,
  calls \<open>deny\<close> with the arguments \<open>cs\<close>, in this order, on the way, and goes on as \<open>q\<close>.
\<close>

inductive steps :: "prog \<Rightarrow> nat \<Rightarrow> string list list \<Rightarrow> prog \<Rightarrow> bool" where
  steps_0: "steps p 0 [] p"
| steps_Tick: "steps p n cs q \<Longrightarrow> steps (Tick p) (Suc n) cs q"
| steps_Deny: "steps p n cs q \<Longrightarrow> steps (CallDeny call p) (Suc n) (call # cs) q"
| steps_Log: "steps p n cs q \<Longrightarrow> steps (CallLog call p) (Suc n) cs q"

text \<open>The script \<^verbatim>\<open>while (true) {}\<close>.\<close>

primcorec spin :: prog where
  "spin = Tick spin"

text \<open>The violation one call of \<open>deny\<close> stands for.\<close>

definition violation_of :: "string list \<Rightarrow> field_Error" where
  "violation_of call =
     \<lparr>Type = ErrorTypeInvalid, FieldPath = Argument call 0, BadValue = Some (Argument call 2),
      Detail = Argument call 1\<rparr>"

text \<open>The boundary at which the context of \<open>runSafely\<close> is done, for a configured timeout.\<close>

definition deadline :: "world \<Rightarrow> nat option \<Rightarrow> duration \<Rightarrow> nat" where
  "deadline w ctx timeout =
     WithTimeout w ctx (if sint timeout \<le> 0 then Timeout (NewDefaultConfig w) else timeout)"

text \<open>The durations of the timers armed, and the lookups and runs among the calls made.\<close>

fun armed :: "event list \<Rightarrow> duration list" where
  "armed [] = []"
| "armed (Arm d # evs) = d # armed evs"
| "armed (ev # evs) = armed evs"

fun lookups :: "event list \<Rightarrow> string list" where
  "lookups [] = []"
| "lookups (Lookup name # evs) = name # lookups evs"
| "lookups (Fetch name # evs) = name # lookups evs"
| "lookups (ev # evs) = lookups evs"

fun runs :: "event list \<Rightarrow> (string \<times> vm) list" where
  "runs [] = []"
| "runs (Run script e # evs) = (script, e) # runs evs"
| "runs (ev # evs) = runs evs"

subsection \<open>Concrete inputs\<close>

text \<open>
  A world in which every program text behaves as \<open>p\<close>, an object encodes as its body, the
  body \<open>{}\<close> decodes to the empty map and nothing else decodes, a timer fires after four
  boundaries, and the default timeout is five seconds.
\<close>

definition world_of :: "prog \<Rightarrow> world" where
  "world_of p =
     \<lparr>json_Marshal = (\<lambda>o'. if Body o' = ''chan'' then Inl (Error ''json: unsupported type'')
                           else Inr (Body o')),
      json_Unmarshal = (\<lambda>b. if b = ''{}'' then Inr Map.empty
                            else Inl (Error ''json: cannot unmarshal'')),
      otto_eval = (\<lambda>script e. p),
      clock = (\<lambda>d. 4),
      NewDefaultConfig = \<lparr>Name = ''scripts'', Script = [], Timeout = 5000000000, Options = Map.empty\<rparr>\<rparr>"

definition an_authorizer :: authorizer where
  "an_authorizer =
     \<lparr>config = \<lparr>Name = ''scripts'', Script = ''policy.js'', Timeout = 0, Options = Map.empty\<rparr>\<rparr>"

text \<open>A cluster-scoped request, and a request in the namespace \<open>test\<close>.\<close>

definition a_context :: "string \<Rightarrow> string \<Rightarrow> Client \<Rightarrow> Context" where
  "a_context namespace body client =
     \<lparr>cx_Object = \<lparr>GetNamespace = namespace, Body = body\<rparr>,
      cx_Group = \<lparr>Group = ''extensions'', Version = ''v1beta1'', Kind = ''Ingress''\<rparr>,
      cx_Client = client,
      cx_Cache = Map.empty\<rparr>"

definition no_client :: Client where
  "no_client name = Inl (Error ''namespaces not found'')"

definition a_client :: Client where
  "a_client name = Inr \<lparr>GetNamespace = [], Body = ''{}''\<rparr>"

section \<open>The kube-cert-manager authorizer (pkg/authorize/kubecertmanager)\<close>

text \<open>
  Only the test of this plugin is among the sources (authorize_test.go); the names below are
  the ones the test uses: the configuration fields, the resolver's \<open>GetCNAME\<close>, the context's
  \<open>Prefix\<close>, the hosts of the ingress rules and the annotations of the namespace.
\<close>

record kcm_Config =
  ExternalIngressHostname :: string
  HostedDomains :: "string list"

type_synonym resolver = "string \<Rightarrow> string"
type_synonym annotations = "string \<rightharpoonup> string"

text \<open>\<open>%d\<close> of a rule's index.\<close>

fun show_nat :: "nat \<Rightarrow> string" where
  "show_nat n =
     (if n < 10 then [''0123456789'' ! n] else show_nat (n div 10) @ [''0123456789'' ! (n mod 10)])"

declare show_nat.simps [simp del]

text \<open>
  Modelled from the spec: the plugin's reading of the namespace annotation is not among the
  sources. Section 8: with \<open>enable-dns-check=false\<close> the check is skipped; with \<open>true\<close> or an
  unrecognized value, or without the annotation, it runs.
\<close>

definition dns_check_enabled :: "string \<Rightarrow> annotations \<Rightarrow> bool" where
  "dns_check_enabled prefix namespace =
     (case namespace (prefix @ ''/kubecertmanager/enable-dns-check'') of
        None \<Rightarrow> True
      | Some v \<Rightarrow> v \<noteq> ''false'')"

text \<open>
  Modelled from the spec: the plugin's DNS check is not among the sources. Section 8: a host
  whose name the resolver does not return as the configured external ingress hostname is
  denied, with the field of its rule, the host as the bad value, and the detail the test
  expects.
\<close>

fun check_hosts :: "kcm_Config \<Rightarrow> resolver \<Rightarrow> nat \<Rightarrow> string list \<Rightarrow> field_Error list" where
  "check_hosts cfg resolve i [] = []"
| "check_hosts cfg resolve i (host # hosts) =
     (if resolve host = ExternalIngressHostname cfg then []
      else [field_Invalid (''spec.rules['' @ show_nat i @ ''].host'') host
              (''the hostname: '' @ host @ '' is not pointed to the external ingress dns name '' @
               ExternalIngressHostname cfg)])
     @ check_hosts cfg resolve (Suc i) hosts"

text \<open>
  Modelled from the spec: the plugin's \<open>Admit\<close> is not among the sources. This is the part
  section 8 describes, for an ingress that asks for a certificate by the http challenge: the
  DNS check of its hosts, unless the namespace disables it.
\<close>

definition kcm_Admit :: "kcm_Config \<Rightarrow> string \<Rightarrow> annotations \<Rightarrow> resolver \<Rightarrow> string list \<Rightarrow> field_Error list" where
  "kcm_Admit cfg prefix namespace resolve hosts =
     (if dns_check_enabled prefix namespace then check_hosts cfg resolve 0 hosts else [])"

text \<open>The configuration, prefix and resolvers of the test.\<close>

definition test_config :: kcm_Config where
  "test_config = \<lparr>ExternalIngressHostname = ''ingress.acp.example.com'', HostedDomains = [''example.com'']\<rparr>"

definition test_prefix :: string where
  "test_prefix = ''policy-admission.acp.homeoffice.gov.uk''"

definition testResolver :: "string \<Rightarrow> resolver" where
  "testResolver hostname = (\<lambda>name. hostname)"

definition dns_check_annotation :: "string \<Rightarrow> annotations" where
  "dns_check_annotation v =
     [''policy-admission.acp.homeoffice.gov.uk/kubecertmanager/enable-dns-check'' \<mapsto> v]"

section \<open>Properties\<close>

text \<open>
Facts about the interpreter loop, shared by the properties below.
\<close>

lemma deny_errs: "errs (deny call s) = errs s @ [violation_of call]"
  by (simp add: deny_def violation_of_def field_Invalid_def Let_def)

lemma log_info_errs: "errs (log_info c call s) = errs s"
  by (simp add: log_info_def emit_def)

lemma otto_Run_steps:
  "steps p n cs q \<Longrightarrow>
   \<exists>s'. otto_Run c intr (n + m) p s = otto_Run c intr m q s' \<and> errs s' = errs s @ map violation_of cs"
proof (induction arbitrary: s rule: steps.induct)
  case (steps_0 p)
  show ?case by (rule exI [of _ s]) simp
next
  case (steps_Tick p n cs q)
  then show ?case by simp
next
  case (steps_Deny p n cs q call)
  from steps_Deny.IH [of "deny call s"] show ?case
    by (simp add: deny_errs)
next
  case (steps_Log p n cs q call)
  from steps_Log.IH [of "log_info c call s"] show ?case
    by (simp add: log_info_errs)
qed

lemma armed_append: "armed (xs @ ys) = armed xs @ armed ys"
  by (induction xs rule: armed.induct) simp_all

lemma lookups_append: "lookups (xs @ ys) = lookups xs @ lookups ys"
  by (induction xs rule: lookups.induct) simp_all

lemma runs_append: "runs (xs @ ys) = runs xs @ runs ys"
  by (induction xs rule: runs.induct) simp_all

lemma otto_Run_trace:
  "armed (trace (snd (otto_Run c intr n p s))) = armed (trace s) \<and>
   lookups (trace (snd (otto_Run c intr n p s))) = lookups (trace s) \<and>
   runs (trace (snd (otto_Run c intr n p s))) = runs (trace s)"
proof (induction n arbitrary: p s)
  case 0
  then show ?case by simp
next
  case (Suc n)
  show ?case
    by (cases p) (simp_all add: Suc deny_def log_info_def emit_def Let_def armed_append lookups_append runs_append)
qed

lemma runSafely_unfold:
  "runSafely w c ctx e script t s =
     (let t' = (if sint t \<le> 0 then Timeout (NewDefaultConfig w) else t);
          r = otto_Run c (PanicError errTimeout) (deadline w ctx t) (otto_eval w script e)
                (emit [Run script e] (emit [Arm t'] s))
      in (case fst r of
            Panic v \<Rightarrow> if v = PanicError errTimeout then Return (Some errTimeout) else Panic v
          | Return err \<Rightarrow> Return err, snd r))"
  by (simp add: runSafely_def deadline_def Let_def split: prod.splits result.splits)

lemma runSafely_trace:
  "armed (trace (snd (runSafely w c ctx e script t s))) =
     armed (trace s) @ [if sint t \<le> 0 then Timeout (NewDefaultConfig w) else t]"
  "lookups (trace (snd (runSafely w c ctx e script t s))) = lookups (trace s)"
  "runs (trace (snd (runSafely w c ctx e script t s))) = runs (trace s) @ [(script, e)]"
  by (simp_all add: runSafely_unfold Let_def otto_Run_trace emit_def armed_append lookups_append runs_append)

lemma runSafely_interrupted:
  assumes "steps (otto_eval w script e) (deadline w ctx t) cs q"
  shows "\<exists>s'. runSafely w c ctx e script t s = (Return (Some errTimeout), s') \<and>
              errs s' = errs s @ map violation_of cs"
proof -
  let ?s0 = "emit [Run script e]
               (emit [Arm (if sint t \<le> 0 then Timeout (NewDefaultConfig w) else t)] s)"
  from otto_Run_steps [OF assms, of c "PanicError errTimeout" 0 ?s0]
  obtain s' where run: "otto_Run c (PanicError errTimeout) (deadline w ctx t) (otto_eval w script e) ?s0
                     = (Panic (PanicError errTimeout), s')"
    and e: "errs s' = errs ?s0 @ map violation_of cs"
    by auto
  have "runSafely w c ctx e script t s = (Return (Some errTimeout), s')"
    by (simp add: runSafely_unfold Let_def run)
  moreover have "errs s' = errs s @ map violation_of cs"
    using e by (simp add: emit_def)
  ultimately show ?thesis by blast
qed

lemma runSafely_finished:
  assumes "steps (otto_eval w script e) n cs q" and "n < deadline w ctx t"
    and "q = Done \<or> q = Throw msg \<or> q = Crash v"
  shows "\<exists>s'. runSafely w c ctx e script t s =
                (case q of Done \<Rightarrow> Return None
                 | Throw m \<Rightarrow> Return (Some (Error m))
                 | Crash u \<Rightarrow> if u = PanicError errTimeout then Return (Some errTimeout) else Panic u,
                 s') \<and>
              errs s' = errs s @ map violation_of cs"
proof -
  let ?s0 = "emit [Run script e]
               (emit [Arm (if sint t \<le> 0 then Timeout (NewDefaultConfig w) else t)] s)"
  from assms(2) obtain k where d: "deadline w ctx t = n + Suc k"
    by (metis less_iff_Suc_add add_Suc_right)
  from otto_Run_steps [OF assms(1), of c "PanicError errTimeout" "Suc k" ?s0]
  obtain s' where run: "otto_Run c (PanicError errTimeout) (deadline w ctx t) (otto_eval w script e) ?s0
                     = otto_Run c (PanicError errTimeout) (Suc k) q s'"
    and e: "errs s' = errs ?s0 @ map violation_of cs"
    using d by auto
  have "runSafely w c ctx e script t s =
          (case q of Done \<Rightarrow> Return None
           | Throw m \<Rightarrow> Return (Some (Error m))
           | Crash u \<Rightarrow> if u = PanicError errTimeout then Return (Some errTimeout) else Panic u,
           s')"
    using assms(3) by (auto simp add: runSafely_unfold Let_def run)
  moreover have "errs s' = errs s @ map violation_of cs"
    using e by (simp add: emit_def)
  ultimately show ?thesis by blast
qed

lemma Admit_run:
  assumes "Admit_setup w c cx = (Inr e, cx', evs)"
    and "runSafely w c ctx e (Script (config c)) (Timeout (config c)) \<lparr>errs = [], trace = evs\<rparr> = (r, s)"
  shows "Admit w c ctx cx =
           \<lparr>outcome = (case r of Panic v \<Rightarrow> Panic v
                        | Return None \<Rightarrow> Return (errs s)
                        | Return (Some err) \<Rightarrow> Return (errs s @ [field_InternalError '''' err])),
            after = cx', calls = trace s\<rparr>"
  using assms by (simp add: Admit_def split: result.splits option.splits)

lemma Admit_early:
  assumes "Admit_setup w c cx = (Inl err, cx', evs)"
  shows "Admit w c ctx cx =
           \<lparr>outcome = Return [field_InternalError '''' err], after = cx', calls = evs\<rparr>"
  using assms by (simp add: Admit_def)

text \<open>
C1. A script that is still running when its deadline arrives, a script that loops forever
  among them, does not keep \<open>Admit\<close> from returning: \<open>runSafely\<close> returns the sentinel
  \<open>errTimeout\<close>, and \<open>Admit\<close> returns the violations of the \<open>deny\<close> calls made before the
  interrupt followed by exactly one internal error, \<open>operation timed out\<close>.
\<close>

theorem timeout_surfaces_as_internal_error:
  assumes "Admit_setup w c cx = (Inr e, cx', evs)"
    and "steps (otto_eval w (Script (config c)) e) (deadline w ctx (Timeout (config c))) cs q"
  shows "fst (runSafely w c ctx e (Script (config c)) (Timeout (config c)) s) = Return (Some errTimeout) \<and>
         outcome (Admit w c ctx cx) =
           Return (map violation_of cs @
                   [\<lparr>Type = ErrorTypeInternal, FieldPath = '''', BadValue = None,
                     Detail = ''operation timed out''\<rparr>])"
proof -
  from runSafely_interrupted [OF assms(2)]
  have "fst (runSafely w c ctx e (Script (config c)) (Timeout (config c)) s) = Return (Some errTimeout)"
    by (metis fst_conv)
  moreover
  from runSafely_interrupted [OF assms(2), of c "\<lparr>errs = [], trace = evs\<rparr>"]
  obtain s' where "runSafely w c ctx e (Script (config c)) (Timeout (config c)) \<lparr>errs = [], trace = evs\<rparr>
                     = (Return (Some errTimeout), s')"
    and "errs s' = map violation_of cs"
    by auto
  then have "outcome (Admit w c ctx cx) =
           Return (map violation_of cs @ [field_InternalError '''' errTimeout])"
    using Admit_run [OF assms(1)] by simp
  ultimately show ?thesis by (simp add: field_InternalError_def)
qed

lemma spin_steps: "steps spin n [] spin"
proof (induction n)
  case 0
  show ?case by (rule steps_0)
next
  case (Suc n)
  then have "steps (Tick spin) (Suc n) [] spin" by (rule steps_Tick)
  moreover have "Tick spin = spin" by (rule spin.code [symmetric])
  ultimately show ?case by simp
qed

lemma setup_cluster_scoped:
  "Admit_setup (world_of p) an_authorizer (a_context [] ''{}'' client) =
     (Inr (set_functions (new_vm an_authorizer (backfill (cx_Group (a_context [] ''{}'' client)) Map.empty))),
      a_context [] ''{}'' client, [NewVM])"
  by (simp add: Admit_setup_def marshal_def world_of_def a_context_def Let_def)

lemma deadline_world_of: "deadline (world_of p) None t = 4"
  by (simp add: deadline_def WithTimeout_def world_of_def)

text \<open>
A script that denies once and then loops forever, interrupted at the fourth boundary.
\<close>

theorem timeout_surfaces_as_internal_error_witness:
  "steps (CallDeny [''spec.x'', ''bad'', ''msg''] spin) 4 [[''spec.x'', ''bad'', ''msg'']] spin \<and>
   outcome (Admit (world_of (CallDeny [''spec.x'', ''bad'', ''msg''] spin)) an_authorizer None
              (a_context [] ''{}'' no_client)) =
     Return [\<lparr>Type = ErrorTypeInvalid, FieldPath = ''spec.x'', BadValue = Some ''msg'', Detail = ''bad''\<rparr>,
             \<lparr>Type = ErrorTypeInternal, FieldPath = '''', BadValue = None,
              Detail = ''operation timed out''\<rparr>]"
proof -
  let ?p = "CallDeny [''spec.x'', ''bad'', ''msg''] spin"
  have "steps ?p (Suc 3) [[''spec.x'', ''bad'', ''msg'']] spin"
    by (rule steps_Deny) (rule spin_steps)
  then have st: "steps ?p 4 [[''spec.x'', ''bad'', ''msg'']] spin"
    by (simp add: eval_nat_numeral)
  have run: "steps (otto_eval (world_of ?p) (Script (config an_authorizer))
                 (set_functions (new_vm an_authorizer (backfill (cx_Group (a_context [] ''{}'' no_client)) Map.empty))))
               (deadline (world_of ?p) None (Timeout (config an_authorizer)))
               [[''spec.x'', ''bad'', ''msg'']] spin"
    using st by (simp add: deadline_world_of) (simp add: world_of_def)
  from timeout_surfaces_as_internal_error [OF setup_cluster_scoped run] st
  show ?thesis by (simp add: violation_of_def Argument_def)
qed

text \<open>
C2, as stated, fails: a panic that is not the timeout sentinel leaves \<open>Admit\<close> as a panic.
  \<open>runSafely\<close> recovers it and raises it again (line 122).
\<close>

theorem other_panic_counterexample:
  "outcome (Admit (world_of (Crash (PanicError (Error ''runtime error: invalid memory address or nil pointer dereference''))))
              an_authorizer None (a_context [] ''{}'' no_client)) =
     Panic (PanicError (Error ''runtime error: invalid memory address or nil pointer dereference''))"
  by (simp add: Admit_def setup_cluster_scoped runSafely_unfold deadline_world_of Let_def eval_nat_numeral)
    (simp add: world_of_def)

text \<open>
C2, amended. A script error, which \<open>Run\<close> returns as an error, becomes one internal-error
  violation carrying its message, after the violations of the \<open>deny\<close> calls made before it.
  A panic other than the timeout sentinel is raised again by \<open>runSafely\<close> and leaves \<open>Admit\<close>
  as a panic.
\<close>

theorem script_error_and_panic:
  assumes "Admit_setup w c cx = (Inr e, cx', evs)"
    and "steps (otto_eval w (Script (config c)) e) n cs q"
    and "n < deadline w ctx (Timeout (config c))"
  shows "(q = Throw msg \<longrightarrow>
            outcome (Admit w c ctx cx) =
              Return (map violation_of cs @
                      [\<lparr>Type = ErrorTypeInternal, FieldPath = '''', BadValue = None, Detail = msg\<rparr>])) \<and>
         (q = Crash v \<and> v \<noteq> PanicError errTimeout \<longrightarrow> outcome (Admit w c ctx cx) = Panic v)"
proof (intro conjI impI)
  assume q: "q = Throw msg"
  from runSafely_finished [OF assms(2,3), of msg v c "\<lparr>errs = [], trace = evs\<rparr>"] q
  obtain s' where "runSafely w c ctx e (Script (config c)) (Timeout (config c)) \<lparr>errs = [], trace = evs\<rparr>
                     = (Return (Some (Error msg)), s')"
    and "errs s' = map violation_of cs"
    by auto
  then show "outcome (Admit w c ctx cx) =
              Return (map violation_of cs @
                      [\<lparr>Type = ErrorTypeInternal, FieldPath = '''', BadValue = None, Detail = msg\<rparr>])"
    using Admit_run [OF assms(1)] by (simp add: field_InternalError_def)
next
  assume q: "q = Crash v \<and> v \<noteq> PanicError errTimeout"
  from runSafely_finished [OF assms(2,3), of msg v c "\<lparr>errs = [], trace = evs\<rparr>"] q
  obtain s' where "runSafely w c ctx e (Script (config c)) (Timeout (config c)) \<lparr>errs = [], trace = evs\<rparr>
                     = (Panic v, s')"
    by auto
  then show "outcome (Admit w c ctx cx) = Panic v"
    using Admit_run [OF assms(1)] by simp
qed

text \<open>
A script that fails with a reference error after one \<open>deny\<close>, and one that panics.
\<close>

theorem script_error_and_panic_witness:
  "outcome (Admit (world_of (CallDeny [''spec.x'', ''bad''] (Throw ''ReferenceError: x is not defined'')))
              an_authorizer None (a_context [] ''{}'' no_client)) =
     Return [\<lparr>Type = ErrorTypeInvalid, FieldPath = ''spec.x'', BadValue = Some ''undefined'', Detail = ''bad''\<rparr>,
             \<lparr>Type = ErrorTypeInternal, FieldPath = '''', BadValue = None,
              Detail = ''ReferenceError: x is not defined''\<rparr>] \<and>
   outcome (Admit (world_of (Tick (Crash (PanicValue ''boom''))))
              an_authorizer None (a_context [] ''{}'' no_client)) = Panic (PanicValue ''boom'')"
proof -
  let ?p = "CallDeny [''spec.x'', ''bad''] (Throw ''ReferenceError: x is not defined'')"
  let ?q = "Tick (Crash (PanicValue ''boom''))"
  let ?e = "set_functions (new_vm an_authorizer (backfill (cx_Group (a_context [] ''{}'' no_client)) Map.empty))"
  have "steps ?p (Suc 0) [[''spec.x'', ''bad'']] (Throw ''ReferenceError: x is not defined'')"
    by (rule steps_Deny) (rule steps_0)
  then have 1: "steps (otto_eval (world_of ?p) (Script (config an_authorizer)) ?e) (Suc 0)
                  [[''spec.x'', ''bad'']] (Throw ''ReferenceError: x is not defined'')"
    by (simp add: world_of_def)
  have "steps ?q (Suc 0) [] (Crash (PanicValue ''boom''))"
    by (rule steps_Tick) (rule steps_0)
  then have 2: "steps (otto_eval (world_of ?q) (Script (config an_authorizer)) ?e) (Suc 0)
                  [] (Crash (PanicValue ''boom''))"
    by (simp add: world_of_def)
  have d: "Suc 0 < deadline (world_of p) None (Timeout (config an_authorizer))" for p
    by (simp add: deadline_world_of)
  from script_error_and_panic [OF setup_cluster_scoped 1 d, of "''ReferenceError: x is not defined''"]
       script_error_and_panic [OF setup_cluster_scoped 2 d, of _ "PanicValue ''boom''"]
  show ?thesis by (simp add: violation_of_def Argument_def)
qed

text \<open>
C3. If \<open>json.Marshal\<close> of the request object fails, or \<open>json.Unmarshal\<close> of its encoding
  fails, \<open>Admit\<close> returns exactly one internal-error violation carrying that error, and has
  made no call: no interpreter was created, no namespace looked up, no timer armed, no script
  run.
\<close>

theorem conversion_failure_aborts:
  assumes "json_Marshal w (cx_Object cx) = Inl err \<or>
           (\<exists>encoded. json_Marshal w (cx_Object cx) = Inr encoded \<and> json_Unmarshal w encoded = Inl err)"
  shows "Admit w c ctx cx =
           \<lparr>outcome = Return [\<lparr>Type = ErrorTypeInternal, FieldPath = '''', BadValue = None,
                                Detail = Error_string err\<rparr>],
            after = cx, calls = []\<rparr>"
proof -
  from assms have "snd (marshal w (cx_Object cx)) = Some err"
    by (auto simp add: marshal_def)
  then have "Admit_setup w c cx = (Inl err, cx, [])"
    by (cases "marshal w (cx_Object cx)") (simp add: Admit_setup_def)
  then show ?thesis
    by (simp add: Admit_early field_InternalError_def)
qed

text \<open>
An object that does not encode, and one whose encoding is not a JSON object.
\<close>

theorem conversion_failure_aborts_witness:
  "json_Marshal (world_of spin) (cx_Object (a_context [] ''chan'' a_client)) = Inl (Error ''json: unsupported type'') \<and>
   Admit (world_of spin) an_authorizer None (a_context [] ''chan'' a_client) =
     \<lparr>outcome = Return [\<lparr>Type = ErrorTypeInternal, FieldPath = '''', BadValue = None,
                          Detail = ''json: unsupported type''\<rparr>],
      after = a_context [] ''chan'' a_client, calls = []\<rparr> \<and>
   json_Unmarshal (world_of spin) ''[]'' = Inl (Error ''json: cannot unmarshal'') \<and>
   Admit (world_of spin) an_authorizer None (a_context ''test'' ''[]'' a_client) =
     \<lparr>outcome = Return [\<lparr>Type = ErrorTypeInternal, FieldPath = '''', BadValue = None,
                          Detail = ''json: cannot unmarshal''\<rparr>],
      after = a_context ''test'' ''[]'' a_client, calls = []\<rparr>"
proof -
  have 1: "json_Marshal (world_of spin) (cx_Object (a_context [] ''chan'' a_client)) =
             Inl (Error ''json: unsupported type'')"
    by (simp add: world_of_def a_context_def)
  have 2: "json_Marshal (world_of spin) (cx_Object (a_context ''test'' ''[]'' a_client)) = Inr ''[]''"
    by (simp add: world_of_def a_context_def)
  have 3: "json_Unmarshal (world_of spin) ''[]'' = Inl (Error ''json: cannot unmarshal'')"
    by (simp add: world_of_def)
  from 2 3 have 4: "json_Marshal (world_of spin) (cx_Object (a_context ''test'' ''[]'' a_client)) =
                      Inl (Error ''json: cannot unmarshal'') \<or>
                    (\<exists>encoded. json_Marshal (world_of spin) (cx_Object (a_context ''test'' ''[]'' a_client)) =
                        Inr encoded \<and>
                      json_Unmarshal (world_of spin) encoded = Inl (Error ''json: cannot unmarshal''))"
    by simp
  from conversion_failure_aborts [OF disjI1, OF 1, of an_authorizer None]
       conversion_failure_aborts [OF 4, of an_authorizer None] 1 3
  show ?thesis by simp
qed

lemma Admit_clean:
  assumes "Admit_setup w c cx = (Inr e, cx', evs)"
    and "steps (otto_eval w (Script (config c)) e) n cs Done"
    and "n < deadline w ctx (Timeout (config c))"
  shows "outcome (Admit w c ctx cx) = Return (map violation_of cs)"
proof -
  from runSafely_finished [OF assms(2,3), of undefined undefined c "\<lparr>errs = [], trace = evs\<rparr>"]
  obtain s' where "runSafely w c ctx e (Script (config c)) (Timeout (config c)) \<lparr>errs = [], trace = evs\<rparr>
                     = (Return None, s')"
    and "errs s' = map violation_of cs"
    by auto
  then show ?thesis
    using Admit_run [OF assms(1)] by simp
qed

text \<open>
C5. One call of \<open>deny(fieldPath, message, value)\<close> appends exactly one violation of type
  invalid with that field path, that message as the detail and that value as the bad value.
  A script that completes cleanly before its deadline makes \<open>Admit\<close> return the violations of
  its \<open>deny\<close> calls, in order, and nothing else; with exactly one call that is exactly one
  violation, and the result is not the empty list, so the decision is not allow.
\<close>

theorem deny_appends_one_violation:
  "errs (deny [path, message, v] s) =
     errs s @ [\<lparr>Type = ErrorTypeInvalid, FieldPath = path, BadValue = Some v, Detail = message\<rparr>] \<and>
   (Admit_setup w c cx = (Inr e, cx', evs) \<and>
    steps (otto_eval w (Script (config c)) e) n cs Done \<and>
    n < deadline w ctx (Timeout (config c)) \<longrightarrow>
      outcome (Admit w c ctx cx) = Return (map violation_of cs)) \<and>
   (Admit_setup w c cx = (Inr e, cx', evs) \<and>
    steps (otto_eval w (Script (config c)) e) n [[path, message, v]] Done \<and>
    n < deadline w ctx (Timeout (config c)) \<longrightarrow>
      outcome (Admit w c ctx cx) =
        Return [\<lparr>Type = ErrorTypeInvalid, FieldPath = path, BadValue = Some v, Detail = message\<rparr>] \<and>
      outcome (Admit w c ctx cx) \<noteq> Return [])"
proof (intro conjI impI)
  show "errs (deny [path, message, v] s) =
     errs s @ [\<lparr>Type = ErrorTypeInvalid, FieldPath = path, BadValue = Some v, Detail = message\<rparr>]"
    by (simp add: deny_def field_Invalid_def Argument_def Let_def)
next
  assume "Admit_setup w c cx = (Inr e, cx', evs) \<and>
    steps (otto_eval w (Script (config c)) e) n cs Done \<and>
    n < deadline w ctx (Timeout (config c))"
  then show "outcome (Admit w c ctx cx) = Return (map violation_of cs)"
    using Admit_clean by blast
next
  assume a: "Admit_setup w c cx = (Inr e, cx', evs) \<and>
    steps (otto_eval w (Script (config c)) e) n [[path, message, v]] Done \<and>
    n < deadline w ctx (Timeout (config c))"
  then have "outcome (Admit w c ctx cx) = Return (map violation_of [[path, message, v]])"
    using Admit_clean by blast
  then show o: "outcome (Admit w c ctx cx) =
        Return [\<lparr>Type = ErrorTypeInvalid, FieldPath = path, BadValue = Some v, Detail = message\<rparr>]"
    by (simp add: violation_of_def Argument_def)
  then show "outcome (Admit w c ctx cx) \<noteq> Return []"
    by simp
qed

text \<open>
The script of the spec's example: one call of \<open>deny\<close> with \<open>spec.x\<close>, \<open>bad\<close>, \<open>msg\<close>.
\<close>

theorem deny_appends_one_violation_witness:
  "steps (Tick (CallDeny [''spec.x'', ''bad'', ''msg''] Done)) 2 [[''spec.x'', ''bad'', ''msg'']] Done \<and>
   outcome (Admit (world_of (Tick (CallDeny [''spec.x'', ''bad'', ''msg''] Done))) an_authorizer None
              (a_context [] ''{}'' no_client)) =
     Return [\<lparr>Type = ErrorTypeInvalid, FieldPath = ''spec.x'', BadValue = Some ''msg'', Detail = ''bad''\<rparr>]"
proof -
  let ?p = "Tick (CallDeny [''spec.x'', ''bad'', ''msg''] Done)"
  let ?e = "set_functions (new_vm an_authorizer (backfill (cx_Group (a_context [] ''{}'' no_client)) Map.empty))"
  have "steps ?p (Suc (Suc 0)) [[''spec.x'', ''bad'', ''msg'']] Done"
    by (intro steps_Tick steps_Deny steps_0)
  then have st: "steps ?p 2 [[''spec.x'', ''bad'', ''msg'']] Done"
    by (simp add: eval_nat_numeral)
  then have 1: "steps (otto_eval (world_of ?p) (Script (config an_authorizer)) ?e) 2
                  [[''spec.x'', ''bad'', ''msg'']] Done"
    by (simp add: world_of_def)
  have d: "2 < deadline (world_of ?p) None (Timeout (config an_authorizer))"
    by (simp add: deadline_world_of)
  from deny_appends_one_violation [of "''spec.x''" "''bad''" "''msg''" undefined "world_of ?p"
         an_authorizer "a_context [] ''{}'' no_client" ?e "a_context [] ''{}'' no_client" "[NewVM]" 2
         "[[''spec.x'', ''bad'', ''msg'']]" None]
       setup_cluster_scoped [of ?p no_client] 1 d st
  show ?thesis by (simp add: violation_of_def Argument_def)
qed

text \<open>
C6. For a timeout that is unset (zero) or negative, \<open>runSafely\<close> arms the timer with the
  timeout of \<open>NewDefaultConfig()\<close>, and behaves as it does when called with that timeout;
  for a positive timeout it arms the timer with exactly that value.
\<close>

theorem timer_duration:
  "(sint t \<le> 0 \<longrightarrow>
      armed (trace (snd (runSafely w c ctx e script t s))) =
        armed (trace s) @ [Timeout (NewDefaultConfig w)] \<and>
      runSafely w c ctx e script t s = runSafely w c ctx e script (Timeout (NewDefaultConfig w)) s) \<and>
   (0 < sint t \<longrightarrow>
      armed (trace (snd (runSafely w c ctx e script t s))) = armed (trace s) @ [t])"
  by (simp add: runSafely_trace) (simp add: runSafely_def Let_def)

text \<open>
Timeouts zero, minus one and three nanoseconds, with a default of five seconds.
\<close>

theorem timer_duration_witness:
  "sint (0 :: duration) \<le> 0 \<and> sint (- 1 :: duration) \<le> 0 \<and> 0 < sint (3 :: duration) \<and>
   armed (trace (snd (runSafely (world_of spin) an_authorizer None Map.empty ''while (true) {}'' 0
                        \<lparr>errs = [], trace = []\<rparr>))) = [5000000000] \<and>
   armed (trace (snd (runSafely (world_of spin) an_authorizer None Map.empty ''while (true) {}'' (- 1)
                        \<lparr>errs = [], trace = []\<rparr>))) = [5000000000] \<and>
   armed (trace (snd (runSafely (world_of spin) an_authorizer None Map.empty ''while (true) {}'' 3
                        \<lparr>errs = [], trace = []\<rparr>))) = [3]"
proof -
  let ?run = "\<lambda>t. runSafely (world_of spin) an_authorizer None Map.empty ''while (true) {}'' t
                      \<lparr>errs = [], trace = []\<rparr>"
  have 1: "sint (0 :: duration) \<le> 0" by simp
  have 2: "sint (- 1 :: duration) \<le> 0" by simp
  have 3: "0 < sint (3 :: duration)" by simp
  have d: "Timeout (NewDefaultConfig (world_of spin)) = 5000000000"
    by (simp add: world_of_def)
  have "armed (trace (snd (?run 0))) =
          armed (trace \<lparr>errs = [], trace = []\<rparr>) @ [Timeout (NewDefaultConfig (world_of spin))]"
    using timer_duration [of 0 "world_of spin"] 1 by blast
  then have a: "armed (trace (snd (?run 0))) = [5000000000]"
    by (simp add: d)
  have "armed (trace (snd (?run (- 1)))) =
          armed (trace \<lparr>errs = [], trace = []\<rparr>) @ [Timeout (NewDefaultConfig (world_of spin))]"
    using timer_duration [of "- 1" "world_of spin"] 2 by blast
  then have b: "armed (trace (snd (?run (- 1)))) = [5000000000]"
    by (simp add: d)
  have "armed (trace (snd (?run 3))) = armed (trace \<lparr>errs = [], trace = []\<rparr>) @ [3]"
    using timer_duration [of 3 "world_of spin"] 3 by blast
  then have c: "armed (trace (snd (?run 3))) = [3]"
    by simp
  from 1 2 3 a b c show ?thesis by blast
qed

text \<open>
C10. \<open>New\<close> returns an authorizer and no error for every configuration; for nil the
  authorizer holds the default configuration, otherwise the one given. \<open>Stop\<close> returns nil.
\<close>

theorem New_never_fails:
  "(\<exists>a. New w cfg = (Some a, None)) \<and>
   New w None = (Some \<lparr>config = NewDefaultConfig w\<rparr>, None) \<and>
   New w (Some cf) = (Some \<lparr>config = cf\<rparr>, None) \<and>
   Stop a = None"
  by (simp add: New_def Stop_def)

lemma otto_Run_trace_prefix:
  "\<exists>evs'. trace (snd (otto_Run c i n p s)) = trace s @ evs'"
proof (induction n arbitrary: p s)
  case 0
  show ?case by simp
next
  case (Suc n)
  show ?case
  proof (cases p)
    case Done
    then show ?thesis by simp
  next
    case (Throw m)
    then show ?thesis by simp
  next
    case (Crash v)
    then show ?thesis by simp
  next
    case (Tick p')
    with Suc [of p' s] show ?thesis by simp
  next
    case (CallDeny call p')
    from Suc [of p' "deny call s"]
    obtain evs' where "trace (snd (otto_Run c i n p' (deny call s))) = trace (deny call s) @ evs'"
      by blast
    then have "trace (snd (otto_Run c i (Suc n) p s)) = trace s @ evs'"
      by (simp add: CallDeny deny_def Let_def)
    then show ?thesis by (rule exI)
  next
    case (CallLog call p')
    from Suc [of p' "log_info c call s"]
    obtain evs' where "trace (snd (otto_Run c i n p' (log_info c call s))) =
                         trace (log_info c call s) @ evs'"
      by blast
    then have "trace (snd (otto_Run c i (Suc n) p s)) =
                 trace s @ (Logged (Name (config c)) (Argument call 0) # evs')"
      by (simp add: CallLog log_info_def emit_def)
    then show ?thesis by (rule exI)
  qed
qed

lemma runSafely_trace_prefix:
  "\<exists>evs'. trace (snd (runSafely w c ctx e script t s)) = trace s @ evs'"
proof -
  let ?t = "if sint t \<le> 0 then Timeout (NewDefaultConfig w) else t"
  let ?s0 = "emit [Run script e] (emit [Arm ?t] s)"
  from otto_Run_trace_prefix [of c "PanicError errTimeout" "deadline w ctx t" "otto_eval w script e" ?s0]
  obtain evs' where "trace (snd (otto_Run c (PanicError errTimeout) (deadline w ctx t)
                                  (otto_eval w script e) ?s0)) = trace ?s0 @ evs'"
    by blast
  then have "trace (snd (runSafely w c ctx e script t s)) =
               trace s @ (Arm ?t # Run script e # evs')"
    by (simp add: runSafely_unfold Let_def emit_def)
  then show ?thesis by (rule exI)
qed

lemma Admit_calls:
  assumes "Admit_setup w c cx = (Inr e, cx', evs)"
  shows "after (Admit w c ctx cx) = cx'"
    and "runs (calls (Admit w c ctx cx)) = runs evs @ [(Script (config c), e)]"
    and "lookups (calls (Admit w c ctx cx)) = lookups evs"
    and "\<exists>evs'. calls (Admit w c ctx cx) = evs @ evs'"
proof -
  obtain r s where rs: "runSafely w c ctx e (Script (config c)) (Timeout (config c))
                          \<lparr>errs = [], trace = evs\<rparr> = (r, s)"
    by (cases "runSafely w c ctx e (Script (config c)) (Timeout (config c)) \<lparr>errs = [], trace = evs\<rparr>")
  from Admit_run [OF assms rs] have a: "after (Admit w c ctx cx) = cx'"
    and c: "calls (Admit w c ctx cx) = trace s"
    by simp_all
  from rs have s: "s = snd (runSafely w c ctx e (Script (config c)) (Timeout (config c))
                             \<lparr>errs = [], trace = evs\<rparr>)"
    by simp
  show "after (Admit w c ctx cx) = cx'" by (rule a)
  show "runs (calls (Admit w c ctx cx)) = runs evs @ [(Script (config c), e)]"
    by (simp add: c s runSafely_trace)
  show "lookups (calls (Admit w c ctx cx)) = lookups evs"
    by (simp add: c s runSafely_trace)
  from runSafely_trace_prefix [of w c ctx e "Script (config c)" "Timeout (config c)"
         "\<lparr>errs = [], trace = evs\<rparr>"]
  show "\<exists>evs'. calls (Admit w c ctx cx) = evs @ evs'"
    by (simp add: c s)
qed

lemma GetCachedNamespace_events:
  assumes "GetCachedNamespace client cache name = (r, cache', evs)"
  shows "runs evs = []"
  using assms by (auto simp add: GetCachedNamespace_def split: option.splits sum.splits)

text \<open>
C4. Once the request object has been decoded: for a request in a namespace, \<open>Admit\<close> looks
  the namespace up through the cache. If the lookup fails, \<open>Admit\<close> returns exactly one
  internal-error violation carrying the lookup's error and runs no script. If it succeeds and
  the namespace decodes, the script runs in an interpreter whose \<open>namespace\<close> binding is the
  decoded namespace. For a cluster-scoped request (empty namespace) there is no lookup and no
  fetch, and the script runs with no \<open>namespace\<close> binding beyond what the static options
  themselves may define under that name.
\<close>

theorem namespace_lookup:
  assumes "marshal w (cx_Object cx) = (obj, None)"
  shows
   "(GetNamespace (cx_Object cx) \<noteq> '''' \<and>
     GetCachedNamespace (cx_Client cx) (cx_Cache cx) (GetNamespace (cx_Object cx)) = (Inl err, cache, evs) \<longrightarrow>
       Admit w c ctx cx =
         \<lparr>outcome = Return [\<lparr>Type = ErrorTypeInternal, FieldPath = '''', BadValue = None,
                              Detail = Error_string err\<rparr>],
          after = cx\<lparr>cx_Cache := cache\<rparr>,
          calls = NewVM # Lookup (GetNamespace (cx_Object cx)) # evs\<rparr> \<and>
       runs (calls (Admit w c ctx cx)) = []) \<and>
    (GetNamespace (cx_Object cx) \<noteq> '''' \<and>
     GetCachedNamespace (cx_Client cx) (cx_Cache cx) (GetNamespace (cx_Object cx)) =
       (Inr namespace, cache, evs) \<and>
     marshal w namespace = (ns, None) \<longrightarrow>
       Lookup (GetNamespace (cx_Object cx)) \<in> set (calls (Admit w c ctx cx)) \<and>
       (\<exists>e. runs (calls (Admit w c ctx cx)) = [(Script (config c), e)] \<and>
            e ''namespace'' = Some (Data ns))) \<and>
    (GetNamespace (cx_Object cx) = '''' \<longrightarrow>
       lookups (calls (Admit w c ctx cx)) = [] \<and>
       (\<exists>e. runs (calls (Admit w c ctx cx)) = [(Script (config c), e)] \<and>
            e ''namespace'' = map_option Opt (Options (config c) ''namespace'')))"
proof (intro conjI impI)
  assume a: "GetNamespace (cx_Object cx) \<noteq> '''' \<and>
     GetCachedNamespace (cx_Client cx) (cx_Cache cx) (GetNamespace (cx_Object cx)) = (Inl err, cache, evs)"
  then have "Admit_setup w c cx =
               (Inl err, cx\<lparr>cx_Cache := cache\<rparr>, NewVM # Lookup (GetNamespace (cx_Object cx)) # evs)"
    using assms by (simp add: Admit_setup_def Let_def)
  then show 1: "Admit w c ctx cx =
         \<lparr>outcome = Return [\<lparr>Type = ErrorTypeInternal, FieldPath = '''', BadValue = None,
                              Detail = Error_string err\<rparr>],
          after = cx\<lparr>cx_Cache := cache\<rparr>,
          calls = NewVM # Lookup (GetNamespace (cx_Object cx)) # evs\<rparr>"
    by (simp add: Admit_early field_InternalError_def)
  from a have "runs evs = []" by (blast intro: GetCachedNamespace_events)
  then show "runs (calls (Admit w c ctx cx)) = []"
    by (simp add: 1)
next
  assume a: "GetNamespace (cx_Object cx) \<noteq> '''' \<and>
     GetCachedNamespace (cx_Client cx) (cx_Cache cx) (GetNamespace (cx_Object cx)) =
       (Inr namespace, cache, evs) \<and>
     marshal w namespace = (ns, None)"
  let ?e = "set_functions ((new_vm c (backfill (cx_Group cx) obj))(''namespace'' \<mapsto> Data ns))"
  from a have stp: "Admit_setup w c cx =
               (Inr ?e, cx\<lparr>cx_Cache := cache\<rparr>, NewVM # Lookup (GetNamespace (cx_Object cx)) # evs)"
    using assms by (simp add: Admit_setup_def Let_def)
  from a have "runs evs = []" by (blast intro: GetCachedNamespace_events)
  then have r: "runs (calls (Admit w c ctx cx)) = [(Script (config c), ?e)]"
    by (simp add: Admit_calls(2) [OF stp])
  have n: "?e ''namespace'' = Some (Data ns)"
    by (simp add: set_functions_def)
  from r n show "\<exists>e. runs (calls (Admit w c ctx cx)) = [(Script (config c), e)] \<and>
            e ''namespace'' = Some (Data ns)"
    by blast
  from Admit_calls(4) [OF stp, of ctx]
  show "Lookup (GetNamespace (cx_Object cx)) \<in> set (calls (Admit w c ctx cx))"
    by auto
next
  assume a: "GetNamespace (cx_Object cx) = ''''"
  let ?e = "set_functions (new_vm c (backfill (cx_Group cx) obj))"
  from a have stp: "Admit_setup w c cx = (Inr ?e, cx, [NewVM])"
    using assms by (simp add: Admit_setup_def Let_def)
  show "lookups (calls (Admit w c ctx cx)) = []"
    by (simp add: Admit_calls(3) [OF stp])
  have r: "runs (calls (Admit w c ctx cx)) = [(Script (config c), ?e)]"
    by (simp add: Admit_calls(2) [OF stp])
  have n: "?e ''namespace'' = map_option Opt (Options (config c) ''namespace'')"
    by (simp add: set_functions_def new_vm_def Let_def)
  from r n show "\<exists>e. runs (calls (Admit w c ctx cx)) = [(Script (config c), e)] \<and>
            e ''namespace'' = map_option Opt (Options (config c) ''namespace'')"
    by blast
qed

lemma marshal_world_of: "marshal (world_of p) \<lparr>GetNamespace = n, Body = ''{}''\<rparr> = (Map.empty, None)"
  by (simp add: marshal_def world_of_def)

text \<open>
A failing fetch, a successful fetch, and a cluster-scoped request.
\<close>

theorem namespace_lookup_witness:
  "Admit (world_of Done) an_authorizer None (a_context ''test'' ''{}'' no_client) =
     \<lparr>outcome = Return [\<lparr>Type = ErrorTypeInternal, FieldPath = '''', BadValue = None,
                          Detail = ''namespaces not found''\<rparr>],
      after = a_context ''test'' ''{}'' no_client,
      calls = [NewVM, Lookup ''test'', Fetch ''test'']\<rparr> \<and>
   Lookup ''test'' \<in> set (calls (Admit (world_of Done) an_authorizer None (a_context ''test'' ''{}'' a_client))) \<and>
   (\<exists>e. runs (calls (Admit (world_of Done) an_authorizer None (a_context ''test'' ''{}'' a_client))) =
          [(''policy.js'', e)] \<and> e ''namespace'' = Some (Data Map.empty)) \<and>
   lookups (calls (Admit (world_of Done) an_authorizer None (a_context [] ''{}'' no_client))) = [] \<and>
   (\<exists>e. runs (calls (Admit (world_of Done) an_authorizer None (a_context [] ''{}'' no_client))) =
          [(''policy.js'', e)] \<and> e ''namespace'' = None)"
proof -
  let ?w = "world_of Done"
  have m: "marshal ?w (cx_Object (a_context n ''{}'' cl)) = (Map.empty, None)" for n cl
    by (simp add: a_context_def marshal_world_of)
  have f: "GetCachedNamespace (cx_Client (a_context ''test'' ''{}'' no_client))
             (cx_Cache (a_context ''test'' ''{}'' no_client))
             (GetNamespace (cx_Object (a_context ''test'' ''{}'' no_client))) =
           (Inl (Error ''namespaces not found''), Map.empty, [Fetch ''test''])"
    by (simp add: GetCachedNamespace_def a_context_def no_client_def)
  have g: "GetCachedNamespace (cx_Client (a_context ''test'' ''{}'' a_client))
             (cx_Cache (a_context ''test'' ''{}'' a_client))
             (GetNamespace (cx_Object (a_context ''test'' ''{}'' a_client))) =
           (Inr \<lparr>GetNamespace = [], Body = ''{}''\<rparr>,
            [''test'' \<mapsto> \<lparr>GetNamespace = [], Body = ''{}''\<rparr>], [Fetch ''test''])"
    by (simp add: GetCachedNamespace_def a_context_def a_client_def)
  have n1: "GetNamespace (cx_Object (a_context ''test'' ''{}'' cl)) \<noteq> ''''" for cl
    by (simp add: a_context_def)
  have n2: "GetNamespace (cx_Object (a_context [] ''{}'' no_client)) = ''''"
    by (simp add: a_context_def)
  have c: "Script (config an_authorizer) = ''policy.js''"
          "Options (config an_authorizer) ''namespace'' = None"
    by (simp_all add: an_authorizer_def)
  have "Admit ?w an_authorizer None (a_context ''test'' ''{}'' no_client) =
     \<lparr>outcome = Return [\<lparr>Type = ErrorTypeInternal, FieldPath = '''', BadValue = None,
                          Detail = Error_string (Error ''namespaces not found'')\<rparr>],
      after = (a_context ''test'' ''{}'' no_client)\<lparr>cx_Cache := Map.empty\<rparr>,
      calls = NewVM # Lookup (GetNamespace (cx_Object (a_context ''test'' ''{}'' no_client))) # [Fetch ''test'']\<rparr>"
    using namespace_lookup [where w = "world_of Done" and cx = "a_context ''test'' ''{}'' no_client"
            and obj = Map.empty and err = "Error ''namespaces not found''" and cache = Map.empty
            and evs = "[Fetch ''test'']" and c = an_authorizer and ctx = None, OF m] n1 f
    by blast
  then have 1: "Admit ?w an_authorizer None (a_context ''test'' ''{}'' no_client) =
     \<lparr>outcome = Return [\<lparr>Type = ErrorTypeInternal, FieldPath = '''', BadValue = None,
                          Detail = ''namespaces not found''\<rparr>],
      after = a_context ''test'' ''{}'' no_client,
      calls = [NewVM, Lookup ''test'', Fetch ''test'']\<rparr>"
    by (simp add: a_context_def)
  have "Lookup (GetNamespace (cx_Object (a_context ''test'' ''{}'' a_client))) \<in>
          set (calls (Admit ?w an_authorizer None (a_context ''test'' ''{}'' a_client))) \<and>
        (\<exists>e. runs (calls (Admit ?w an_authorizer None (a_context ''test'' ''{}'' a_client))) =
               [(Script (config an_authorizer), e)] \<and> e ''namespace'' = Some (Data Map.empty))"
    using namespace_lookup [where w = "world_of Done" and cx = "a_context ''test'' ''{}'' a_client"
            and obj = Map.empty and namespace = "\<lparr>GetNamespace = [], Body = ''{}''\<rparr>"
            and cache = "[''test'' \<mapsto> \<lparr>GetNamespace = [], Body = ''{}''\<rparr>]"
            and evs = "[Fetch ''test'']" and ns = Map.empty and c = an_authorizer and ctx = None, OF m]
          n1 g marshal_world_of
    by blast
  then have 2: "Lookup ''test'' \<in> set (calls (Admit ?w an_authorizer None (a_context ''test'' ''{}'' a_client))) \<and>
        (\<exists>e. runs (calls (Admit ?w an_authorizer None (a_context ''test'' ''{}'' a_client))) =
               [(''policy.js'', e)] \<and> e ''namespace'' = Some (Data Map.empty))"
    by (simp add: c) (simp add: a_context_def)
  have "lookups (calls (Admit ?w an_authorizer None (a_context [] ''{}'' no_client))) = [] \<and>
        (\<exists>e. runs (calls (Admit ?w an_authorizer None (a_context [] ''{}'' no_client))) =
               [(Script (config an_authorizer), e)] \<and>
             e ''namespace'' = map_option Opt (Options (config an_authorizer) ''namespace''))"
    using namespace_lookup [where w = "world_of Done" and cx = "a_context [] ''{}'' no_client"
            and obj = Map.empty and c = an_authorizer and ctx = None, OF m] n2
    by blast
  then have 3: "lookups (calls (Admit ?w an_authorizer None (a_context [] ''{}'' no_client))) = [] \<and>
        (\<exists>e. runs (calls (Admit ?w an_authorizer None (a_context [] ''{}'' no_client))) =
               [(''policy.js'', e)] \<and> e ''namespace'' = None)"
    by (simp add: c)
  from 1 2 3 show ?thesis by blast
qed

lemma Admit_setup_frame:
  assumes "Admit_setup w c cx = (r, cx', evs)"
  shows "cx_Object cx' = cx_Object cx \<and> cx_Group cx' = cx_Group cx \<and> cx_Client cx' = cx_Client cx \<and>
         runs evs = [] \<and>
         (\<forall>e. r = Inr e \<longrightarrow>
              e ''object'' = Some (Data (backfill (cx_Group cx) (fst (marshal w (cx_Object cx))))))"
proof (cases "marshal w (cx_Object cx)")
  case (Pair obj err)
  show ?thesis
  proof (cases err)
    case (Some e)
    with Pair assms show ?thesis by (auto simp add: Admit_setup_def)
  next
    case None
    show ?thesis
    proof (cases "GetNamespace (cx_Object cx) = ''''")
      case True
      with Pair None assms show ?thesis
        by (auto simp add: Admit_setup_def Let_def set_functions_def new_vm_def)
    next
      case False
      obtain r' cache evs' where g: "GetCachedNamespace (cx_Client cx) (cx_Cache cx)
                                       (GetNamespace (cx_Object cx)) = (r', cache, evs')"
        by (cases "GetCachedNamespace (cx_Client cx) (cx_Cache cx) (GetNamespace (cx_Object cx))") auto
      from GetCachedNamespace_events [OF g] have "runs evs' = []" .
      with Pair None False g assms show ?thesis
        by (auto simp add: Admit_setup_def Let_def set_functions_def new_vm_def
                 split: sum.splits prod.splits option.splits)
    qed
  qed
qed

text \<open>
C9. \<open>Admit\<close> leaves the request object (and the group descriptor) of the context as it
  found them; the \<open>object\<close> binding of every interpreter it runs is the decoded copy of the
  object with \<open>apiVersion\<close> and \<open>kind\<close> filled in.
\<close>

theorem request_object_unchanged:
  "cx_Object (after (Admit w c ctx cx)) = cx_Object cx \<and>
   cx_Group (after (Admit w c ctx cx)) = cx_Group cx \<and>
   (\<forall>script e. (script, e) \<in> set (runs (calls (Admit w c ctx cx))) \<longrightarrow>
      e ''object'' = Some (Data (backfill (cx_Group cx) (fst (marshal w (cx_Object cx))))))"
proof -
  obtain r cx' evs where s: "Admit_setup w c cx = (r, cx', evs)"
    by (cases "Admit_setup w c cx") auto
  note f = Admit_setup_frame [OF s]
  show ?thesis
  proof (cases r)
    case (Inl err)
    with s have "Admit w c ctx cx =
           \<lparr>outcome = Return [field_InternalError '''' err], after = cx', calls = evs\<rparr>"
      by (simp add: Admit_early)
    with f show ?thesis by simp
  next
    case (Inr e)
    with s have s': "Admit_setup w c cx = (Inr e, cx', evs)" by simp
    from Admit_calls(1,2) [OF s', of ctx] f Inr show ?thesis by simp
  qed
qed

text \<open>
An object whose encoding has neither \<open>apiVersion\<close> nor \<open>kind\<close>: the copy has both, the
  request object is as before.
\<close>

theorem request_object_unchanged_witness:
  "(''policy.js'', set_functions (new_vm an_authorizer
       [''apiVersion'' \<mapsto> JString ''extensions/v1beta1'', ''kind'' \<mapsto> JString ''Ingress'']))
     \<in> set (runs (calls (Admit (world_of Done) an_authorizer None (a_context [] ''{}'' no_client)))) \<and>
   cx_Object (after (Admit (world_of Done) an_authorizer None (a_context [] ''{}'' no_client))) =
     \<lparr>GetNamespace = [], Body = ''{}''\<rparr> \<and>
   set_functions (new_vm an_authorizer
       [''apiVersion'' \<mapsto> JString ''extensions/v1beta1'', ''kind'' \<mapsto> JString ''Ingress'']) ''object'' =
     Some (Data [''apiVersion'' \<mapsto> JString ''extensions/v1beta1'', ''kind'' \<mapsto> JString ''Ingress''])"
proof -
  let ?cx = "a_context [] ''{}'' no_client"
  have b: "backfill (cx_Group ?cx) Map.empty =
             [''apiVersion'' \<mapsto> JString ''extensions/v1beta1'', ''kind'' \<mapsto> JString ''Ingress'']"
    by (simp add: backfill_def a_context_def Let_def)
  have m: "fst (marshal (world_of Done) (cx_Object ?cx)) = Map.empty"
    by (simp add: a_context_def marshal_world_of)
  have r: "runs (calls (Admit (world_of Done) an_authorizer None ?cx)) =
             [(''policy.js'', set_functions (new_vm an_authorizer (backfill (cx_Group ?cx) Map.empty)))]"
    using Admit_calls(2) [OF setup_cluster_scoped [of Done no_client], of None]
    by (simp add: an_authorizer_def)
  have o: "cx_Object ?cx = \<lparr>GetNamespace = [], Body = ''{}''\<rparr>"
    by (simp add: a_context_def)
  from request_object_unchanged [of "world_of Done" an_authorizer None ?cx] r
  show ?thesis
    by (simp add: o marshal_world_of b)
qed

lemma show_nat_0: "show_nat 0 = ''0''"
  by (simp add: show_nat.simps)


text \<open>
C8. With the namespace annotation \<open>enable-dns-check\<close> set to \<open>false\<close>, a host that does not
  resolve to the external ingress hostname is allowed; with any other value, \<open>true\<close> and
  unrecognized values alike, it is denied.
\<close>

theorem dns_check_switch:
  "kcm_Admit test_config test_prefix (dns_check_annotation ''false'') (testResolver ''bad.hostname'')
     [''site.nohere.com''] = [] \<and>
   (v \<noteq> ''false'' \<longrightarrow>
      kcm_Admit test_config test_prefix (dns_check_annotation v) (testResolver ''bad.hostname'')
        [''site.nohere.com''] =
        [\<lparr>Type = ErrorTypeInvalid, FieldPath = ''spec.rules[0].host'', BadValue = Some ''site.nohere.com'',
          Detail = ''the hostname: site.nohere.com is not pointed to the external ingress dns name ingress.acp.example.com''\<rparr>])"
  by (simp add: kcm_Admit_def dns_check_enabled_def dns_check_annotation_def test_prefix_def
        testResolver_def test_config_def field_Invalid_def show_nat_0)

text \<open>
The values \<open>true\<close> and \<open>bad_value\<close> of the test.
\<close>

theorem dns_check_switch_witness:
  "''true'' \<noteq> ''false'' \<and> ''bad_value'' \<noteq> ''false'' \<and>
   kcm_Admit test_config test_prefix (dns_check_annotation ''true'') (testResolver ''bad.hostname'')
     [''site.nohere.com''] =
     [\<lparr>Type = ErrorTypeInvalid, FieldPath = ''spec.rules[0].host'', BadValue = Some ''site.nohere.com'',
       Detail = ''the hostname: site.nohere.com is not pointed to the external ingress dns name ingress.acp.example.com''\<rparr>] \<and>
   kcm_Admit test_config test_prefix (dns_check_annotation ''bad_value'') (testResolver ''bad.hostname'')
     [''site.nohere.com''] =
     [\<lparr>Type = ErrorTypeInvalid, FieldPath = ''spec.rules[0].host'', BadValue = Some ''site.nohere.com'',
       Detail = ''the hostname: site.nohere.com is not pointed to the external ingress dns name ingress.acp.example.com''\<rparr>]"
proof -
  have 1: "''true'' \<noteq> ''false''" by simp
  have 2: "''bad_value'' \<noteq> ''false''" by simp
  from dns_check_switch [of "''true''"] dns_check_switch [of "''bad_value''"] 1 2
  show ?thesis by blast
qed

end
